theory Spec2Isabelle
  imports Complex_Main "HOL-Library.Multiset"
begin

section \<open>JavaScript numbers\<close>

text \<open>
  The rule computes with JavaScript numbers: \<^verbatim>\<open>parseFloat\<close> may return \<^verbatim>\<open>NaN\<close> or an
  infinity, and the source tests \<^verbatim>\<open>isNaN\<close>. A number is modelled as an exact rational
  or one of the three special values; the rounding of IEEE-754 doubles is not modelled
  (finite results are exact).
\<close>

datatype number = NaN | NegInf | Fin rat | PosInf

fun num_neg :: "number \<Rightarrow> number" where
  "num_neg NaN = NaN"
| "num_neg NegInf = PosInf"
| "num_neg (Fin a) = Fin (- a)"
| "num_neg PosInf = NegInf"

text \<open>\<^verbatim>\<open>a - b\<close> on numbers.\<close>

fun num_sub :: "number \<Rightarrow> number \<Rightarrow> number" where
  "num_sub (Fin a) (Fin b) = Fin (a - b)"
| "num_sub (Fin a) PosInf = NegInf"
| "num_sub (Fin a) NegInf = PosInf"
| "num_sub PosInf (Fin b) = PosInf"
| "num_sub PosInf NegInf = PosInf"
| "num_sub NegInf (Fin b) = NegInf"
| "num_sub NegInf PosInf = NegInf"
| "num_sub PosInf PosInf = NaN"
| "num_sub NegInf NegInf = NaN"
| "num_sub NaN b = NaN"
| "num_sub a NaN = NaN"

text \<open>\<^verbatim>\<open>Math.abs\<close>.\<close>

fun num_abs :: "number \<Rightarrow> number" where
  "num_abs NaN = NaN"
| "num_abs NegInf = PosInf"
| "num_abs (Fin a) = Fin \<bar>a\<bar>"
| "num_abs PosInf = PosInf"

text \<open>\<^verbatim>\<open>a < b\<close>: every comparison with \<^verbatim>\<open>NaN\<close> is false.\<close>

fun num_less :: "number \<Rightarrow> number \<Rightarrow> bool" where
  "num_less (Fin a) (Fin b) = (a < b)"
| "num_less (Fin a) PosInf = True"
| "num_less NegInf (Fin b) = True"
| "num_less NegInf PosInf = True"
| "num_less a b = False"

text \<open>\<^verbatim>\<open>a > b\<close> and \<^verbatim>\<open>a <= b\<close>.\<close>

definition num_gt :: "number \<Rightarrow> number \<Rightarrow> bool" where
  "num_gt a b = num_less b a"

definition num_le :: "number \<Rightarrow> number \<Rightarrow> bool" where
  "num_le a b = (a \<noteq> NaN \<and> b \<noteq> NaN \<and> (a = b \<or> num_less a b))"

definition isNaN :: "number \<Rightarrow> bool" where
  "isNaN a = (a = NaN)"

section \<open>parseFloat\<close>

text \<open>
  \<^verbatim>\<open>parseFloat\<close> is a built-in of the language. Following ECMAScript, it skips leading
  white space and converts the longest prefix of the rest that is a
  \<^verbatim>\<open>StrDecimalLiteral\<close>: an optional sign, then \<^verbatim>\<open>Infinity\<close>, or digits with an optional
  fraction, or a fraction alone, then an optional exponent (which needs at least one
  digit). With no such prefix the result is \<^verbatim>\<open>NaN\<close>. Strings are lists of 8-bit
  characters here, so only the ASCII white space is recognised.
\<close>

definition is_digit :: "char \<Rightarrow> bool" where
  "is_digit c = (48 \<le> (of_char c :: nat) \<and> (of_char c :: nat) \<le> 57)"

definition is_space :: "char \<Rightarrow> bool" where
  "is_space c = ((9 \<le> (of_char c :: nat) \<and> (of_char c :: nat) \<le> 13) \<or> (of_char c :: nat) = 32)"

definition digit_val :: "char \<Rightarrow> nat" where
  "digit_val c = of_char c - 48"

definition digits_val :: "string \<Rightarrow> nat" where
  "digits_val ds = foldl (\<lambda>a c. 10 * a + digit_val c) 0 ds"

text \<open>The value of the exponent part at the head of the string, 0 when there is none.\<close>

definition exponent_part :: "string \<Rightarrow> int" where
  "exponent_part s =
     (if s \<noteq> [] \<and> (hd s = CHR ''e'' \<or> hd s = CHR ''E'') then
        (let r = tl s in
         if r \<noteq> [] \<and> hd r = CHR ''-'' then
           (let ds = takeWhile is_digit (tl r) in if ds = [] then 0 else - int (digits_val ds))
         else if r \<noteq> [] \<and> hd r = CHR ''+'' then
           (let ds = takeWhile is_digit (tl r) in if ds = [] then 0 else int (digits_val ds))
         else
           (let ds = takeWhile is_digit r in if ds = [] then 0 else int (digits_val ds)))
      else 0)"

definition scale10 :: "rat \<Rightarrow> int \<Rightarrow> rat" where
  "scale10 m e = (if 0 \<le> e then m * 10 ^ nat e else m / 10 ^ nat (- e))"

definition str_unsigned :: "string \<Rightarrow> number" where
  "str_unsigned s =
     (if take 8 s = ''Infinity'' then PosInf
      else
        (let ip = takeWhile is_digit s; r = dropWhile is_digit s in
         if r \<noteq> [] \<and> hd r = CHR ''.'' then
           (let fp = takeWhile is_digit (tl r); r' = dropWhile is_digit (tl r) in
            if ip = [] \<and> fp = [] then NaN
            else Fin (scale10 (of_nat (digits_val ip) + of_nat (digits_val fp) / 10 ^ length fp)
                        (exponent_part r')))
         else if ip = [] then NaN
         else Fin (scale10 (of_nat (digits_val ip)) (exponent_part r))))"

definition parseFloat :: "string \<Rightarrow> number" where
  "parseFloat s =
     (let t = dropWhile is_space s in
      if t \<noteq> [] \<and> hd t = CHR ''-'' then num_neg (str_unsigned (tl t))
      else if t \<noteq> [] \<and> hd t = CHR ''+'' then str_unsigned (tl t)
      else str_unsigned t)"

text \<open>
  The characters that can continue a numeric literal; any other character ends the
  prefix that \<^verbatim>\<open>parseFloat\<close> converts.
\<close>

definition numeric_char :: "char \<Rightarrow> bool" where
  "numeric_char c = (is_digit c \<or> c = CHR ''.'' \<or> c = CHR ''e'' \<or> c = CHR ''E'' \<or> c = CHR ''+'' \<or> c = CHR ''-'')"

section \<open>helpers.ts\<close>

text \<open>\<^verbatim>\<open>value.endsWith('px')\<close>; the argument is a string by its type.\<close>

definition hasPxUnit :: "string \<Rightarrow> bool" where
  "hasPxUnit v = (2 \<le> length v \<and> drop (length v - 2) v = ''px'')"

text \<open>
  \<^verbatim>\<open>extractPxValue\<close>: \<^verbatim>\<open>number | null\<close> is \<open>number option\<close>; \<^verbatim>\<open>substring(0, length - 2)\<close>
  is \<open>take (length - 2)\<close>.
\<close>

definition extractPxValue :: "string \<Rightarrow> number option" where
  "extractPxValue pxValue =
     (if \<not> hasPxUnit pxValue then
        (if pxValue = ''0'' then Some (Fin 0) else None)
      else
        (let numericPart = take (length pxValue - 2) pxValue;
             numericValue = parseFloat numericPart
         in if isNaN numericValue then None else Some numericValue))"

section \<open>types.ts\<close>

text \<open>
  \<^verbatim>\<open>tokens\<close> is a JavaScript object used as a dictionary: an association list in the
  object's key iteration order (the order of \<^verbatim>\<open>for ... in\<close>), with distinct keys.
\<close>

record TokenCategory =
  properties :: "string list"
  tokens :: "(string \<times> string) list"

record RuleOptions =
  tokenMatchMargin :: "number option"
  tokensFilePath :: string

section \<open>The rule\<close>

subsection \<open>Messages and diagnostics\<close>


definition DEFAULT_TOKEN_MATCH_MARGIN :: number where
  "DEFAULT_TOKEN_MATCH_MARGIN = Fin 2"




text \<open>
  What the rule hands to the host: a \<^verbatim>\<open>result.warn\<close> of type parseError with its text,
  or a \<^verbatim>\<open>stylelint.utils.report\<close> whose message is \<^verbatim>\<open>messages.exactMatch\<close> or
  \<^verbatim>\<open>messages.closeMatch\<close> applied to the recorded arguments, with the span
  \<^verbatim>\<open>index\<close>..\<^verbatim>\<open>endIndex\<close> in the declaration. The close-match report has severity
  warning. Each diagnostic keeps the arguments of its message; \<open>message\<close> renders them.
\<close>

datatype diagnostic =
    ParseError string
  | ExactMatch string string string nat nat
  | CloseMatch string string string string nat nat


fun is_exact :: "diagnostic \<Rightarrow> bool" where
  "is_exact (ExactMatch t v p i j) = True"
| "is_exact d = False"

fun is_close :: "diagnostic \<Rightarrow> bool" where
  "is_close (CloseMatch t k v os i j) = True"
| "is_close d = False"

subsection \<open>The value tokenizer's nodes\<close>

text \<open>
  The nodes come from the external value tokenizer (postcss-value-parser): each has a
  type, its text, its offset in the value string, and, for a function, the nodes of its
  arguments.
\<close>

datatype node_type = Word | Str | Div | Space | Comment | Function | UnicodeRange

datatype vnode = Node (ntype: node_type) (nvalue: string) (sourceIndex: nat) (nodes: "vnode list")

fun set_value :: "string \<Rightarrow> vnode \<Rightarrow> vnode" where
  "set_value v (Node t old i ns) = Node t v i ns"

text \<open>
  The tokenizer and its serialiser are not part of the repository: the rule is modelled
  for any pair of them.
\<close>

record value_parser =
  valueParser :: "string \<Rightarrow> vnode list"
  toString :: "vnode list \<Rightarrow> string"

text \<open>
  For the concrete examples: the tokenizer on a value made of words separated by single
  spaces, where it yields the words and the spaces with their offsets, and the
  serialiser on such a list, which joins the texts.
\<close>

fun words_from :: "nat \<Rightarrow> string \<Rightarrow> string \<Rightarrow> vnode list" where
  "words_from start w [] = (if w = [] then [] else [Node Word w start []])"
| "words_from start w (c # cs) =
     (if c = CHR '' '' then
        (if w = [] then [] else [Node Word w start []])
        @ Node Space '' '' (start + length w) [] # words_from (Suc (start + length w)) [] cs
      else words_from start (w @ [c]) cs)"

definition words_parser :: value_parser where
  "words_parser = \<lparr>valueParser = words_from 0 [], toString = (\<lambda>ns. concat (map nvalue ns))\<rparr>"

text \<open>
  What one call of the walk callback does: whether it returned \<^verbatim>\<open>false\<close>, the node as
  it leaves it, whether it wrote the declaration's value (the fix), and what it reported.
\<close>

record visit =
  returned_false :: bool
  node_after :: vnode
  fixed :: bool
  reports :: "diagnostic list"

text \<open>
  \<^verbatim>\<open>walk\<close> of postcss-value-parser calls the callback on every node of the list in
  order; a result of \<^verbatim>\<open>false\<close> only keeps it from descending into the arguments of a
  function node, the walk itself goes on with the next node. The callback of the rule
  changes nothing of a node but its text. The result is the tree as the callbacks left
  it, whether any of them fixed, and the reports in order.
\<close>

fun walk :: "(vnode \<Rightarrow> visit) \<Rightarrow> vnode list \<Rightarrow> vnode list \<times> bool \<times> diagnostic list"
  and walk_node :: "(vnode \<Rightarrow> visit) \<Rightarrow> vnode \<Rightarrow> vnode \<times> bool \<times> diagnostic list" where
  "walk cb [] = ([], False, [])"
| "walk cb (n # ns) =
     (case walk_node cb n of (n', f, rs) \<Rightarrow>
        (case walk cb ns of (ns', f', rs') \<Rightarrow> (n' # ns', f \<or> f', rs @ rs')))"
| "walk_node cb (Node t v i children) =
     (let r = cb (Node t v i children) in
      if \<not> returned_false r \<and> t = Function then
        (case walk cb children of (children', f, rs) \<Rightarrow>
           (Node t (nvalue (node_after r)) i children', fixed r \<or> f, reports r @ rs))
      else (node_after r, fixed r, reports r))"

text \<open>The nodes in the order in which the walk reaches them.\<close>

fun preorder :: "vnode list \<Rightarrow> vnode list"
  and preorder_node :: "vnode \<Rightarrow> vnode list" where
  "preorder [] = []"
| "preorder (n # ns) = preorder_node n @ preorder ns"
| "preorder_node (Node t v i children) =
     Node t v i children # (if t = Function then preorder children else [])"

subsection \<open>The close-match search\<close>

record close_match =
  tokenPxValue :: string
  tokenName :: string
  diff :: number

text \<open>
  The loop over the keys of \<^verbatim>\<open>category.tokens\<close>, pushing each qualifying candidate;
  \<^verbatim>\<open>category.tokens[tokenPxEntry]\<close> is the value paired with the key.
\<close>

fun collect_closeMatches :: "number \<Rightarrow> number \<Rightarrow> (string \<times> string) list \<Rightarrow> close_match list" where
  "collect_closeMatches numericPxValue margin [] = []"
| "collect_closeMatches numericPxValue margin ((tokenPxEntry, name) # rest) =
     (if hasPxUnit tokenPxEntry \<or> tokenPxEntry = ''0'' then
        (case extractPxValue tokenPxEntry of
           None \<Rightarrow> []
         | Some numTokenPx \<Rightarrow>
             (let d = num_abs (num_sub numericPxValue numTokenPx) in
              if num_gt d (Fin 0) \<and> num_le d margin
              then [\<lparr>tokenPxValue = tokenPxEntry, tokenName = name, diff = d\<rparr>]
              else []))
      else [])
     @ collect_closeMatches numericPxValue margin rest"

text \<open>
  \<^verbatim>\<open>Array.prototype.sort\<close> with a comparator is a stable sort: \<^verbatim>\<open>b\<close> goes before \<^verbatim>\<open>a\<close>
  only when \<^verbatim>\<open>cmp(a, b) > 0\<close> (a \<^verbatim>\<open>NaN\<close> result counts as 0). For a consistent
  comparator the result does not depend on the algorithm; insertion is used here.
\<close>

fun insert_sorted :: "('a \<Rightarrow> 'a \<Rightarrow> number) \<Rightarrow> 'a \<Rightarrow> 'a list \<Rightarrow> 'a list" where
  "insert_sorted cmp x [] = [x]"
| "insert_sorted cmp x (y # ys) =
     (if num_gt (cmp x y) (Fin 0) then y # insert_sorted cmp x ys else x # y # ys)"

fun array_sort :: "('a \<Rightarrow> 'a \<Rightarrow> number) \<Rightarrow> 'a list \<Rightarrow> 'a list" where
  "array_sort cmp [] = []"
| "array_sort cmp (x # xs) = insert_sorted cmp x (array_sort cmp xs)"

definition sort_closeMatches :: "close_match list \<Rightarrow> close_match list" where
  "sort_closeMatches closeMatches = array_sort (\<lambda>a b. num_sub (diff a) (diff b)) closeMatches"

text \<open>\<^verbatim>\<open>join(', ')\<close>.\<close>

fun join_comma :: "string list \<Rightarrow> string" where
  "join_comma [] = []"
| "join_comma [x] = x"
| "join_comma (x # y # ys) = x @ '', '' @ join_comma (y # ys)"

definition suggestion :: "close_match \<Rightarrow> string" where
  "suggestion m = tokenName m @ '' ('' @ [CHR 0x27] @ tokenPxValue m @ [CHR 0x27] @ '')''"

definition otherSuggestions_of :: "close_match list \<Rightarrow> string" where
  "otherSuggestions_of sorted_matches =
     (if 1 < length sorted_matches then join_comma (map suggestion (tl sorted_matches)) else [])"

text \<open>
  The second half of the callback: the search, the sort and the report of the best
  match, when the parsed magnitude is present and the margin is positive.
\<close>

definition close_search :: "number \<Rightarrow> TokenCategory \<Rightarrow> number option \<Rightarrow> string \<Rightarrow> nat \<Rightarrow> nat \<Rightarrow> diagnostic list" where
  "close_search margin category numericPxValue originalValue i j =
     (case numericPxValue of
        None \<Rightarrow> []
      | Some n \<Rightarrow>
          if num_gt margin (Fin 0) then
            (let closeMatches = collect_closeMatches n margin (tokens category) in
             if closeMatches \<noteq> [] then
               (let sorted_matches = sort_closeMatches closeMatches;
                    bestMatch = hd sorted_matches
                in [CloseMatch (tokenName bestMatch) (tokenPxValue bestMatch) originalValue
                      (otherSuggestions_of sorted_matches) i j])
             else [])
          else [])"

subsection \<open>The walk callback\<close>

text \<open>
  \<^verbatim>\<open>category.tokens[key]\<close> used as a condition: present and not the empty string.
\<close>

definition truthy_token :: "(string \<times> string) list \<Rightarrow> string \<Rightarrow> string option" where
  "truthy_token toks key =
     (case map_of toks key of None \<Rightarrow> None | Some name \<Rightarrow> if name = [] then None else Some name)"

definition skipped :: "vnode \<Rightarrow> visit" where
  "skipped node = \<lparr>returned_false = False, node_after = node, fixed = False, reports = []\<rparr>"

definition visit_node :: "bool \<Rightarrow> number \<Rightarrow> TokenCategory \<Rightarrow> string \<Rightarrow> nat \<Rightarrow> vnode \<Rightarrow> visit" where
  "visit_node context_fix margin category propertyName valueOffset node =
     (let originalValue = nvalue node;
          isPxValueNode = hasPxUnit originalValue;
          isUnitlessZeroNode = (originalValue = ''0'')
      in
      if ntype node \<noteq> Word \<or> (\<not> isPxValueNode \<and> \<not> isUnitlessZeroNode) then skipped node
      else if isUnitlessZeroNode \<and> truthy_token (tokens category) ''0'' = None then skipped node
      else
        (let numericPxValue = extractPxValue originalValue in
         if \<not> isUnitlessZeroNode \<and> numericPxValue = None then skipped node
         else
           (let valueNodeStartIndexInDecl = valueOffset + sourceIndex node;
                valueNodeEndIndexInDecl = valueNodeStartIndexInDecl + length originalValue
            in
            case truthy_token (tokens category) originalValue of
              Some tokenToSuggest \<Rightarrow>
                (let doFix = (context_fix \<and> nvalue node \<noteq> tokenToSuggest) in
                 \<lparr>returned_false = True,
                  node_after = (if doFix then set_value tokenToSuggest node else node),
                  fixed = doFix,
                  reports = [ExactMatch tokenToSuggest originalValue propertyName
                               valueNodeStartIndexInDecl valueNodeEndIndexInDecl]\<rparr>)
            | None \<Rightarrow>
                \<lparr>returned_false = False, node_after = node, fixed = False,
                 reports = close_search margin category numericPxValue originalValue
                             valueNodeStartIndexInDecl valueNodeEndIndexInDecl\<rparr>)))"

text \<open>
  The token that the callback reports as the exact match of a node against a category,
  if there is one: the node is a word, it is "0" or a px value that the reader can
  read, and its text has a truthy entry in the category's tokens.
\<close>

definition exact_token :: "TokenCategory \<Rightarrow> vnode \<Rightarrow> string option" where
  "exact_token category node =
     (if ntype node = Word
         \<and> (nvalue node = ''0'' \<or> (hasPxUnit (nvalue node) \<and> extractPxValue (nvalue node) \<noteq> None))
      then truthy_token (tokens category) (nvalue node) else None)"

subsection \<open>Declarations and categories\<close>

text \<open>
  A declaration as the rule reads it: \<^verbatim>\<open>prop\<close>, \<^verbatim>\<open>value\<close>, \<^verbatim>\<open>raws.between\<close> (may be
  undefined) and whether \<^verbatim>\<open>source.start\<close> is there.
\<close>

record Declaration =
  decl_prop :: string
  decl_value :: string
  raws_between :: "string option"
  has_source_start :: bool

text \<open>\<^verbatim>\<open>toLowerCase\<close> on the ASCII letters.\<close>

definition toLowerCase :: "string \<Rightarrow> string" where
  "toLowerCase s =
     map (\<lambda>c. if 65 \<le> (of_char c :: nat) \<and> (of_char c :: nat) \<le> 90
               then char_of ((of_char c :: nat) + 32) else c) s"

text \<open>\<^verbatim>\<open>(decl.raws.between || ':').length\<close>.\<close>

definition between_length :: "Declaration \<Rightarrow> nat" where
  "between_length d =
     (case raws_between d of None \<Rightarrow> 1 | Some b \<Rightarrow> if b = [] then 1 else length b)"

text \<open>
  One applicable category: the value is parsed afresh, the tree is walked, and the
  declaration's value is rewritten when a callback fixed. The assignment
  \<^verbatim>\<open>decl.value = parsedValue.toString()\<close> is repeated at each fix on the tree as mutated
  so far; only fixes mutate, so after the walk the value is the serialised final tree.
\<close>

definition walk_category :: "value_parser \<Rightarrow> bool \<Rightarrow> number \<Rightarrow> TokenCategory \<Rightarrow> string \<Rightarrow> Declaration \<Rightarrow> Declaration \<times> diagnostic list" where
  "walk_category vp context_fix margin category propertyName d =
     (let parsedValue = valueParser vp (decl_value d);
          valueOffset = length (decl_prop d) + between_length d
      in case walk (visit_node context_fix margin category propertyName valueOffset) parsedValue of
           (tree, f, rs) \<Rightarrow> ((if f then d\<lparr>decl_value := toString vp tree\<rparr> else d), rs))"

text \<open>The loop \<^verbatim>\<open>for (const categoryName in activeCategories)\<close>.\<close>

fun check_categories :: "value_parser \<Rightarrow> bool \<Rightarrow> number \<Rightarrow> string \<Rightarrow> (string \<times> TokenCategory) list \<Rightarrow> Declaration \<Rightarrow> Declaration \<times> diagnostic list" where
  "check_categories vp context_fix margin propertyName [] d = (d, [])"
| "check_categories vp context_fix margin propertyName ((categoryName, category) # rest) d =
     (if propertyName \<in> set (properties category) then
        (case walk_category vp context_fix margin category propertyName d of
           (d', rs) \<Rightarrow>
             (case check_categories vp context_fix margin propertyName rest d' of
                (d'', rs') \<Rightarrow> (d'', rs @ rs')))
      else check_categories vp context_fix margin propertyName rest d)"

text \<open>The callback of \<^verbatim>\<open>root.walkDecls\<close>.\<close>

definition check_decl :: "value_parser \<Rightarrow> bool \<Rightarrow> number \<Rightarrow> (string \<times> TokenCategory) list \<Rightarrow> Declaration \<Rightarrow> Declaration \<times> diagnostic list" where
  "check_decl vp context_fix margin activeCategories d =
     (if decl_prop d = [] \<or> decl_value d = [] \<or> \<not> has_source_start d then (d, [])
      else check_categories vp context_fix margin (toLowerCase (decl_prop d)) activeCategories d)"

text \<open>\<^verbatim>\<open>walkDecls\<close>: every declaration of the document, in document order.\<close>

fun walkDecls :: "(Declaration \<Rightarrow> Declaration \<times> diagnostic list) \<Rightarrow> Declaration list \<Rightarrow> Declaration list \<times> diagnostic list" where
  "walkDecls f [] = ([], [])"
| "walkDecls f (d # ds) =
     (case f d of (d', rs) \<Rightarrow> (case walkDecls f ds of (ds', rs') \<Rightarrow> (d' # ds', rs @ rs')))"

subsection \<open>Loading the catalog\<close>

text \<open>
  The loaded JSON is cast to a dictionary of categories without a check, and the rule
  then tests each category's two fields for \<^verbatim>\<open>undefined\<close>. A loaded category is
  modelled with each field either undefined or of its declared type.
\<close>

record raw_category =
  raw_properties :: "string list option"
  raw_tokens :: "(string \<times> string) list option"

text \<open>
  What is found at the resolved path: no file; a file whose reading or
  \<^verbatim>\<open>JSON.parse\<close> throws, with the exception's message; a JSON value that is not an object,
  or null; an object, its keys in iteration order.
\<close>

datatype tokens_file =
    NotFound
  | Unreadable string
  | NotAnObject
  | Loaded "(string \<times> raw_category) list"

text \<open>The messages of the two errors thrown in the \<^verbatim>\<open>try\<close> block, and of the warning.\<close>

definition missing_field_error :: "string \<Rightarrow> string" where
  "missing_field_error key =
     ''Token category '' @ [CHR 0x27] @ key @ [CHR 0x27] @ '' is missing ''
       @ [CHR 0x27] @ ''properties'' @ [CHR 0x27] @ '' or ''
       @ [CHR 0x27] @ ''tokens'' @ [CHR 0x27] @ '' field.''"

definition not_object_error :: string where
  "not_object_error = ''Tokens file must be a JSON object.''"

definition load_warning :: "string \<Rightarrow> string" where
  "load_warning msg = ''Error loading or parsing custom tokens file: '' @ msg"

text \<open>The validation loop; \<open>Inl\<close> is the message of the error it throws.\<close>

fun validate_categories :: "(string \<times> raw_category) list \<Rightarrow> string + (string \<times> TokenCategory) list" where
  "validate_categories [] = Inr []"
| "validate_categories ((key, c) # rest) =
     (case (raw_properties c, raw_tokens c) of
        (Some ps, Some ts) \<Rightarrow>
          (case validate_categories rest of
             Inl e \<Rightarrow> Inl e
           | Inr cs \<Rightarrow> Inr ((key, \<lparr>properties = ps, tokens = ts\<rparr>) # cs))
      | _ \<Rightarrow> Inl (missing_field_error key))"

text \<open>The \<^verbatim>\<open>try\<close> block; \<open>Inl\<close> is the text of the warning after which the rule returns.\<close>

definition load_catalog :: "string \<Rightarrow> tokens_file \<Rightarrow> string + (string \<times> TokenCategory) list" where
  "load_catalog resolvedPath file =
     (case file of
        NotFound \<Rightarrow> Inl (''Custom tokens file not found at: '' @ resolvedPath)
      | Unreadable msg \<Rightarrow> Inl (load_warning msg)
      | NotAnObject \<Rightarrow> Inl (load_warning not_object_error)
      | Loaded raw \<Rightarrow>
          (case validate_categories raw of
             Inl msg \<Rightarrow> Inl (load_warning msg)
           | Inr activeCategories \<Rightarrow> Inr activeCategories))"

subsection \<open>ruleImpl\<close>

text \<open>
  \<^verbatim>\<open>validateOptions\<close> with the two predicates of the source: the primary option must be
  true, the secondary options must be there, a margin that is given must be a number
  \<^verbatim>\<open>>= 0\<close>, and the path must not be empty.
\<close>

definition validateOptions :: "bool \<Rightarrow> RuleOptions option \<Rightarrow> bool" where
  "validateOptions primaryOption secondaryOptionsObject =
     (primaryOption \<and>
      (case secondaryOptionsObject of
         None \<Rightarrow> False
       | Some opts \<Rightarrow>
           (case tokenMatchMargin opts of None \<Rightarrow> True | Some m \<Rightarrow> num_le (Fin 0) m)
           \<and> tokensFilePath opts \<noteq> []))"

text \<open>
  One pass over a document (its declarations in document order), given the resolved
  path and what is found there. The result is the declarations as the pass leaves them
  and what the rule itself warned and reported, in order.
\<close>

definition ruleImpl :: "value_parser \<Rightarrow> bool \<Rightarrow> RuleOptions option \<Rightarrow> bool \<Rightarrow> string \<Rightarrow> tokens_file \<Rightarrow> Declaration list \<Rightarrow> Declaration list \<times> diagnostic list" where
  "ruleImpl vp primaryOption secondaryOptionsObject context_fix resolvedPath file root_decls =
     (if \<not> validateOptions primaryOption secondaryOptionsObject \<or> \<not> primaryOption then (root_decls, [])
      else
        (case secondaryOptionsObject of
           None \<Rightarrow> (root_decls, [])
         | Some opts \<Rightarrow>
             (let margin = (case tokenMatchMargin opts of Some m \<Rightarrow> m | None \<Rightarrow> DEFAULT_TOKEN_MATCH_MARGIN)
              in case load_catalog resolvedPath file of
                   Inl text \<Rightarrow> (root_decls, [ParseError text])
                 | Inr activeCategories \<Rightarrow>
                     if activeCategories = [] then (root_decls, [])
                     else walkDecls (check_decl vp context_fix margin activeCategories) root_decls)))"

section \<open>The Pixel-Value Reader\<close>

lemma hasPxUnit_append: "hasPxUnit (p @ ''px'')"
  by (simp add: hasPxUnit_def)

lemma hasPxUnit_iff: "hasPxUnit v \<longleftrightarrow> (\<exists>p. v = p @ ''px'')"
proof
  assume "hasPxUnit v"
  then have "v = take (length v - 2) v @ ''px''"
    unfolding hasPxUnit_def by (metis append_take_drop_id)
  then show "\<exists>p. v = p @ ''px''" ..
next
  assume "\<exists>p. v = p @ ''px''"
  then show "hasPxUnit v" by (auto simp: hasPxUnit_append)
qed

lemma extractPxValue_px:
  "extractPxValue (p @ ''px'') = (if parseFloat p = NaN then None else Some (parseFloat p))"
  by (simp add: extractPxValue_def hasPxUnit_append isNaN_def Let_def)

lemma takeWhile_digit_append:
  "r = [] \<or> \<not> is_digit (hd r) \<Longrightarrow> takeWhile is_digit (s @ r) = takeWhile is_digit s"
  by (induction s) (cases r; auto)+

lemma dropWhile_digit_append:
  "r = [] \<or> \<not> is_digit (hd r) \<Longrightarrow> dropWhile is_digit (s @ r) = dropWhile is_digit s @ r"
  by (induction s) (cases r; auto)+

lemma exponent_part_append:
  assumes "r = [] \<or> \<not> numeric_char (hd r)"
  shows "exponent_part (s @ r) = exponent_part s"
proof -
  have d: "r = [] \<or> \<not> is_digit (hd r)" using assms by (auto simp: numeric_char_def)
  have tw: "\<And>u. takeWhile is_digit (u @ r) = takeWhile is_digit u"
    using d by (rule takeWhile_digit_append)
  have tr: "takeWhile is_digit r = []" using tw [of "[]"] by simp
  have tlr: "takeWhile is_digit (tl r) = [] \<or> r = [] \<or> \<not> (hd r = CHR ''+'' \<or> hd r = CHR ''-'')"
    using assms by (auto simp: numeric_char_def)
  show ?thesis
  proof (cases s)
    case Nil
    then show ?thesis using assms tr by (auto simp: exponent_part_def numeric_char_def Let_def)
  next
    case (Cons a s')
    note s = Cons
    show ?thesis
    proof (cases s')
      case Nil
      then show ?thesis using s assms tr
        by (auto simp: exponent_part_def numeric_char_def Let_def)
    next
      case (Cons b s'')
      then show ?thesis using s tw [of "b # s''"] tw [of "s''"]
        by (auto simp: exponent_part_def Let_def)
    qed
  qed
qed


lemma str_unsigned_head:
  assumes "str_unsigned u \<noteq> NaN" "take 8 u \<noteq> ''Infinity''"
  shows "u \<noteq> [] \<and> (is_digit (hd u) \<or> hd u = CHR ''.'')"
proof (cases u)
  case Nil
  then show ?thesis using assms by (simp add: str_unsigned_def)
next
  case (Cons a u')
  then show ?thesis using assms
    by (auto simp: str_unsigned_def Let_def split: if_splits)
qed

lemma str_unsigned_append:
  assumes nn: "str_unsigned u \<noteq> NaN" and r: "r = [] \<or> \<not> numeric_char (hd r)"
  shows "str_unsigned (u @ r) = str_unsigned u"
proof (cases "take 8 u = ''Infinity''")
  case True
  then have "length (take 8 u) = 8" by simp
  then have "8 \<le> length u" by simp
  then have "take 8 (u @ r) = take 8 u" by simp
  then show ?thesis using True by (simp add: str_unsigned_def)
next
  case False
  from str_unsigned_head [OF nn False] obtain a u' where u: "u = a # u'" and a: "is_digit a \<or> a = CHR ''.''"
    by (cases u) auto
  have notI: "take 8 (u @ r) \<noteq> ''Infinity''"
    using u a by (auto simp: is_digit_def)
  have d: "r = [] \<or> \<not> is_digit (hd r)" using r by (auto simp: numeric_char_def)
  have dot: "r = [] \<or> hd r \<noteq> CHR ''.''" using r by (auto simp: numeric_char_def)
  have tw: "\<And>s. takeWhile is_digit (s @ r) = takeWhile is_digit s"
    using d by (rule takeWhile_digit_append)
  have dw: "\<And>s. dropWhile is_digit (s @ r) = dropWhile is_digit s @ r"
    using d by (rule dropWhile_digit_append)
  have ex: "\<And>s. exponent_part (s @ r) = exponent_part s"
    using r by (rule exponent_part_append)
  have ex0: "exponent_part r = exponent_part []" using ex [of "[]"] by simp
  show ?thesis
  proof (cases "dropWhile is_digit u")
    case Nil
    have e1: "dropWhile is_digit (u @ r) = r" using dw [of u] Nil by simp
    have "str_unsigned (u @ r) =
            (if takeWhile is_digit u = [] then NaN
             else Fin (scale10 (of_nat (digits_val (takeWhile is_digit u))) (exponent_part [])))"
      unfolding str_unsigned_def Let_def e1 tw using notI dot ex0 by auto
    moreover have "str_unsigned u =
            (if takeWhile is_digit u = [] then NaN
             else Fin (scale10 (of_nat (digits_val (takeWhile is_digit u))) (exponent_part [])))"
      unfolding str_unsigned_def Let_def Nil using False by simp
    ultimately show ?thesis by simp
  next
    case (Cons b w)
    have e1: "dropWhile is_digit (u @ r) = b # (w @ r)" using dw [of u] Cons by simp
    have e2: "exponent_part (b # w @ r) = exponent_part (b # w)" using ex [of "b # w"] by simp
    show ?thesis
      unfolding str_unsigned_def Let_def e1 Cons tw using False notI
      by (simp add: tw dw ex e2)
  qed
qed

lemma parseFloat_append:
  assumes nn: "parseFloat p \<noteq> NaN" and r: "r = [] \<or> \<not> numeric_char (hd r)"
  shows "parseFloat (p @ r) = parseFloat p"
proof -
  define t where "t = dropWhile is_space p"
  have t: "t \<noteq> []"
  proof
    assume "t = []"
    then have "parseFloat p = NaN"
      unfolding parseFloat_def t_def [symmetric] by (simp add: str_unsigned_def)
    with nn show False by simp
  qed
  have dw: "dropWhile is_space (p @ r) = t @ r"
    using t unfolding t_def by (induction p) auto
  obtain a t' where tc: "t = a # t'" using t by (cases t) auto
  show ?thesis
  proof (cases "a = CHR ''-''")
    case True
    then have "str_unsigned t' \<noteq> NaN" using nn tc
      by (auto simp: parseFloat_def t_def [symmetric])
    then have "str_unsigned (t' @ r) = str_unsigned t'" using r by (rule str_unsigned_append)
    then show ?thesis using True tc by (simp add: parseFloat_def dw t_def [symmetric])
  next
    case False
    note nm = False
    show ?thesis
    proof (cases "a = CHR ''+''")
      case True
      then have "str_unsigned t' \<noteq> NaN" using nn tc
        by (auto simp: parseFloat_def t_def [symmetric])
      then have "str_unsigned (t' @ r) = str_unsigned t'" using r by (rule str_unsigned_append)
      then show ?thesis using True tc by (simp add: parseFloat_def dw t_def [symmetric])
    next
      case False
      then have "str_unsigned t \<noteq> NaN" using nn tc nm
        by (auto simp: parseFloat_def t_def [symmetric])
      then have "str_unsigned (t @ r) = str_unsigned t" using r by (rule str_unsigned_append)
      then show ?thesis using False nm tc by (simp add: parseFloat_def dw t_def [symmetric])
    qed
  qed
qed


text \<open>
  C8. The Pixel-Value Reader is a total function: on "0" it returns the number 0; on an
  input with the px suffix whose prefix parses as a number it returns that number; on
  every other input (no suffix and not "0", a suffix after an unparseable prefix such as
  "abcpx", another unit such as "10%") it returns nothing.
\<close>

theorem extractPxValue_reads:
  "extractPxValue ''0'' = Some (Fin 0)
   \<and> (parseFloat p \<noteq> NaN \<longrightarrow> extractPxValue (p @ ''px'') = Some (parseFloat p))
   \<and> (parseFloat p = NaN \<longrightarrow> extractPxValue (p @ ''px'') = None)
   \<and> (\<not> hasPxUnit v \<and> v \<noteq> ''0'' \<longrightarrow> extractPxValue v = None)
   \<and> extractPxValue ''abcpx'' = None
   \<and> extractPxValue ''10%'' = None"
proof -
  have z: "extractPxValue ''0'' = Some (Fin 0)" by (simp add: extractPxValue_def hasPxUnit_def)
  have a: "extractPxValue ''abcpx'' = None" by code_simp
  have b: "extractPxValue ''10%'' = None" by code_simp
  have c: "\<not> hasPxUnit v \<and> v \<noteq> ''0'' \<longrightarrow> extractPxValue v = None"
    by (simp add: extractPxValue_def)
  show ?thesis using z a b c by (simp add: extractPxValue_px)
qed

theorem extractPxValue_reads_witness:
  "parseFloat ''16'' \<noteq> NaN \<and> extractPxValue ''16px'' = Some (Fin 16)
   \<and> parseFloat ''abc'' = NaN \<and> extractPxValue ''abcpx'' = None
   \<and> \<not> hasPxUnit ''10%'' \<and> ''10%'' \<noteq> ''0'' \<and> extractPxValue ''10%'' = None"
proof -
  have p16: "parseFloat ''16'' = Fin 16" by code_simp
  have pabc: "parseFloat ''abc'' = NaN" by code_simp
  have n10: "\<not> hasPxUnit ''10%''" by code_simp
  show ?thesis
    using extractPxValue_reads [of "''16''" "''10%''"] extractPxValue_reads [of "''abc''" "''10%''"]
      p16 pabc n10 by simp
qed

lemma visit_node_px_no_exact:
  assumes "extractPxValue (p @ ''px'') = Some m"
    and "truthy_token (tokens category) (p @ ''px'') = None"
  shows "reports (visit_node context_fix margin category propertyName valueOffset (Node Word (p @ ''px'') i ns))
         = close_search margin category (Some m) (p @ ''px'')
             (valueOffset + i) (valueOffset + i + length (p @ ''px''))"
  using assms by (simp add: visit_node_def Let_def hasPxUnit_append skipped_def)

text \<open>
  C10. When the text before the px suffix begins with something \<^verbatim>\<open>parseFloat\<close> can
  convert and goes on with characters that cannot continue a number (as in "12abcpx"),
  the reader returns the leading number instead of nothing, and a word node with such a
  text that has no exact match goes into the close-match search with that number.
\<close>

theorem extractPxValue_leading_prefix:
  assumes "parseFloat p \<noteq> NaN" and "r = [] \<or> \<not> numeric_char (hd r)"
  shows "extractPxValue (p @ r @ ''px'') = Some (parseFloat p)
     \<and> (truthy_token (tokens category) (p @ r @ ''px'') = None \<longrightarrow>
          reports (visit_node context_fix margin category propertyName valueOffset (Node Word (p @ r @ ''px'') i ns))
          = close_search margin category (Some (parseFloat p)) (p @ r @ ''px'')
              (valueOffset + i) (valueOffset + i + length (p @ r @ ''px'')))"
proof -
  have pf: "parseFloat (p @ r) = parseFloat p" using assms by (rule parseFloat_append)
  have e: "extractPxValue ((p @ r) @ ''px'') = Some (parseFloat p)"
    using assms(1) pf by (simp add: extractPxValue_px del: append_assoc)
  show ?thesis using e visit_node_px_no_exact [of "p @ r" "parseFloat p" category] by simp
qed

theorem extractPxValue_leading_prefix_witness:
  "parseFloat ''12'' \<noteq> NaN \<and> \<not> numeric_char (hd ''abc'')
   \<and> extractPxValue ''12abcpx'' = Some (Fin 12)
   \<and> truthy_token [(''14px'', ''--a'')] ''12abcpx'' = None
   \<and> reports (visit_node False (Fin 2) \<lparr>properties = [''margin''], tokens = [(''14px'', ''--a'')]\<rparr>
                ''margin'' 8 (Node Word ''12abcpx'' 0 []))
      = [CloseMatch ''--a'' ''14px'' ''12abcpx'' [] 8 15]"
proof -
  have p12: "parseFloat ''12'' = Fin 12" by code_simp
  have nc: "\<not> numeric_char (hd ''abc'')" by code_simp
  have tt: "truthy_token [(''14px'', ''--a'')] ''12abcpx'' = None" by code_simp
  have cs: "close_search (Fin 2) \<lparr>properties = [''margin''], tokens = [(''14px'', ''--a'')]\<rparr>
              (Some (Fin 12)) ''12abcpx'' 8 15 = [CloseMatch ''--a'' ''14px'' ''12abcpx'' [] 8 15]"
    by code_simp
  show ?thesis
    using extractPxValue_leading_prefix [of "''12''" "''abc''"
        "\<lparr>properties = [''margin''], tokens = [(''14px'', ''--a'')]\<rparr>" False "Fin 2" "''margin''" 8 0 "[]"]
      p12 nc tt cs by simp
qed

section \<open>Loading and validating the catalog\<close>

lemma validate_categories_malformed:
  assumes "(key, c) \<in> set raw" "raw_properties c = None \<or> raw_tokens c = None"
  shows "\<exists>k c'. (k, c') \<in> set raw \<and> (raw_properties c' = None \<or> raw_tokens c' = None) \<and>
           validate_categories raw = Inl (missing_field_error k)"
  using assms
proof (induction raw)
  case Nil
  then show ?case by simp
next
  case (Cons e raw)
  obtain k0 c0 where e: "e = (k0, c0)" by (cases e)
  show ?case
  proof (cases "raw_properties c0 = None \<or> raw_tokens c0 = None")
    case True
    then have "validate_categories (e # raw) = Inl (missing_field_error k0)"
      using e by (auto split: option.splits)
    then show ?thesis using True e by (intro exI [of _ k0] exI [of _ c0]) simp
  next
    case False
    then have "(key, c) \<in> set raw" using Cons.prems e by auto
    from Cons.IH [OF this Cons.prems(2)] obtain k c' where
      kc: "(k, c') \<in> set raw" "raw_properties c' = None \<or> raw_tokens c' = None"
      and v: "validate_categories raw = Inl (missing_field_error k)"
      by blast
    have "validate_categories (e # raw) = validate_categories raw"
      using False e v by (auto split: option.splits)
    then show ?thesis using kc v by (intro exI [of _ k] exI [of _ c']) simp
  qed
qed

text \<open>
  C5. When a loaded catalog has a category whose \<^verbatim>\<open>properties\<close> or \<^verbatim>\<open>tokens\<close> field is
  undefined, the pass ends with exactly one warning, which names a malformed category,
  reports nothing about any value and leaves every declaration as it was, whatever
  well-formed categories the catalog also has.
\<close>

theorem malformed_catalog_aborts:
  assumes "validateOptions primaryOption (Some opts)"
    and "(key, c) \<in> set raw" and "raw_properties c = None \<or> raw_tokens c = None"
  shows "\<exists>k c'. (k, c') \<in> set raw \<and> (raw_properties c' = None \<or> raw_tokens c' = None) \<and>
           ruleImpl vp primaryOption (Some opts) context_fix resolvedPath (Loaded raw) root_decls =
             (root_decls, [ParseError (load_warning (missing_field_error k))])"
proof -
  from validate_categories_malformed [OF assms(2,3)] obtain k c' where
    kc: "(k, c') \<in> set raw" "raw_properties c' = None \<or> raw_tokens c' = None"
    and v: "validate_categories raw = Inl (missing_field_error k)"
    by blast
  have p: primaryOption using assms(1) by (simp add: validateOptions_def)
  have "ruleImpl vp primaryOption (Some opts) context_fix resolvedPath (Loaded raw) root_decls =
             (root_decls, [ParseError (load_warning (missing_field_error k))])"
    using assms(1) p v by (simp add: ruleImpl_def load_catalog_def Let_def)
  then show ?thesis using kc by blast
qed

theorem malformed_catalog_aborts_witness:
  "validateOptions True (Some \<lparr>tokenMatchMargin = None, tokensFilePath = ''tokens.json''\<rparr>)
   \<and> raw_tokens \<lparr>raw_properties = Some [''border-radius''], raw_tokens = None\<rparr> = None
   \<and> ruleImpl words_parser True (Some \<lparr>tokenMatchMargin = None, tokensFilePath = ''tokens.json''\<rparr>) False
        ''/project/tokens.json''
        (Loaded [(''spacing'', \<lparr>raw_properties = Some [''margin''], raw_tokens = Some [(''16px'', ''var(--s-4)'')]\<rparr>),
                 (''radius'', \<lparr>raw_properties = Some [''border-radius''], raw_tokens = None\<rparr>)])
        [\<lparr>decl_prop = ''margin'', decl_value = ''16px'', raws_between = Some '': '', has_source_start = True\<rparr>]
      = ([\<lparr>decl_prop = ''margin'', decl_value = ''16px'', raws_between = Some '': '', has_source_start = True\<rparr>],
         [ParseError (load_warning (missing_field_error ''radius''))])"
proof -
  have v: "validateOptions True (Some \<lparr>tokenMatchMargin = None, tokensFilePath = ''tokens.json''\<rparr>)"
    by (simp add: validateOptions_def)
  have m: "(''radius'', \<lparr>raw_properties = Some [''border-radius''], raw_tokens = None\<rparr>)
      \<in> set [(''spacing'', \<lparr>raw_properties = Some [''margin''], raw_tokens = Some [(''16px'', ''var(--s-4)'')]\<rparr>),
                 (''radius'', \<lparr>raw_properties = Some [''border-radius''], raw_tokens = None\<rparr>)]"
    by simp
  have u: "raw_properties \<lparr>raw_properties = Some [''border-radius''], raw_tokens = None\<rparr> = None
       \<or> raw_tokens \<lparr>raw_properties = Some [''border-radius''], raw_tokens = None\<rparr> = None"
    by simp
  from malformed_catalog_aborts [OF v m u, of words_parser False "''/project/tokens.json''"
      "[\<lparr>decl_prop = ''margin'', decl_value = ''16px'', raws_between = Some '': '', has_source_start = True\<rparr>]"]
  obtain k c' where
    kc: "(k, c') \<in> set [(''spacing'', \<lparr>raw_properties = Some [''margin''], raw_tokens = Some [(''16px'', ''var(--s-4)'')]\<rparr>),
                 (''radius'', \<lparr>raw_properties = Some [''border-radius''], raw_tokens = None\<rparr>)]"
      "raw_properties c' = None \<or> raw_tokens c' = None"
    and r: "ruleImpl words_parser True (Some \<lparr>tokenMatchMargin = None, tokensFilePath = ''tokens.json''\<rparr>) False
        ''/project/tokens.json''
        (Loaded [(''spacing'', \<lparr>raw_properties = Some [''margin''], raw_tokens = Some [(''16px'', ''var(--s-4)'')]\<rparr>),
                 (''radius'', \<lparr>raw_properties = Some [''border-radius''], raw_tokens = None\<rparr>)])
        [\<lparr>decl_prop = ''margin'', decl_value = ''16px'', raws_between = Some '': '', has_source_start = True\<rparr>]
      = ([\<lparr>decl_prop = ''margin'', decl_value = ''16px'', raws_between = Some '': '', has_source_start = True\<rparr>],
         [ParseError (load_warning (missing_field_error k))])"
    by blast
  from kc have "k = ''radius''" by auto
  with r v show ?thesis by simp
qed

text \<open>
  C9. With a catalog that has no category the pass does nothing: no warning, no report,
  the declarations untouched.
\<close>

theorem empty_catalog_silent:
  "ruleImpl vp primaryOption secondaryOptionsObject context_fix resolvedPath (Loaded []) root_decls
     = (root_decls, [])"
  by (simp add: ruleImpl_def load_catalog_def Let_def split: option.splits)

theorem empty_catalog_silent_witness:
  "validateOptions True (Some \<lparr>tokenMatchMargin = None, tokensFilePath = ''tokens.json''\<rparr>)
   \<and> ruleImpl words_parser True (Some \<lparr>tokenMatchMargin = None, tokensFilePath = ''tokens.json''\<rparr>) False
        ''/project/tokens.json'' (Loaded [])
        [\<lparr>decl_prop = ''margin'', decl_value = ''16px'', raws_between = Some '': '', has_source_start = True\<rparr>]
      = ([\<lparr>decl_prop = ''margin'', decl_value = ''16px'', raws_between = Some '': '', has_source_start = True\<rparr>], [])"
  using empty_catalog_silent [of words_parser True "Some \<lparr>tokenMatchMargin = None, tokensFilePath = ''tokens.json''\<rparr>" False
        "''/project/tokens.json''"
        "[\<lparr>decl_prop = ''margin'', decl_value = ''16px'', raws_between = Some '': '', has_source_start = True\<rparr>]"]
  by (simp add: validateOptions_def)

section \<open>The walk over the value nodes\<close>

lemma visit_node_returned_false:
  "returned_false (visit_node context_fix margin category propertyName valueOffset n) \<Longrightarrow> ntype n = Word"
  by (auto simp: visit_node_def Let_def skipped_def split: if_splits option.splits)

lemma walk_reports_aux:
  "(\<forall>m. returned_false (cb m) \<longrightarrow> ntype m \<noteq> Function) \<longrightarrow>
     snd (snd (walk cb ns)) = concat (map (\<lambda>n. reports (cb n)) (preorder ns))"
  "(\<forall>m. returned_false (cb m) \<longrightarrow> ntype m \<noteq> Function) \<longrightarrow>
     snd (snd (walk_node cb n)) = concat (map (\<lambda>n. reports (cb n)) (preorder_node n))"
proof (induction cb ns and cb n rule: walk_walk_node.induct)
  case (1 cb)
  show ?case by simp
next
  case (2 cb n ns)
  show ?case
  proof
    assume a: "\<forall>m. returned_false (cb m) \<longrightarrow> ntype m \<noteq> Function"
    obtain n' f rs where wn: "walk_node cb n = (n', f, rs)" by (cases "walk_node cb n") auto
    obtain ns' f' rs' where ws: "walk cb ns = (ns', f', rs')" by (cases "walk cb ns") auto
    have "rs = concat (map (\<lambda>n. reports (cb n)) (preorder_node n))" using 2(1) a wn by simp
    moreover have "rs' = concat (map (\<lambda>n. reports (cb n)) (preorder ns))"
      using 2(2) [OF wn [symmetric] refl] a ws by simp
    ultimately show "snd (snd (walk cb (n # ns))) = concat (map (\<lambda>n. reports (cb n)) (preorder (n # ns)))"
      using wn ws by simp
  qed
next
  case (3 cb t v i children)
  show ?case
  proof
    assume a: "\<forall>m. returned_false (cb m) \<longrightarrow> ntype m \<noteq> Function"
    show "snd (snd (walk_node cb (Node t v i children))) =
            concat (map (\<lambda>n. reports (cb n)) (preorder_node (Node t v i children)))"
    proof (cases "\<not> returned_false (cb (Node t v i children)) \<and> t = Function")
      case True
      obtain cs f rs where ws: "walk cb children = (cs, f, rs)" by (cases "walk cb children") auto
      have "rs = concat (map (\<lambda>n. reports (cb n)) (preorder children))"
        using 3 [OF refl True] a ws by simp
      moreover have "t = Function" "\<not> returned_false (cb (Node Function v i children))"
        using True by auto
      ultimately show ?thesis using ws by (simp add: Let_def)
    next
      case False
      have "t \<noteq> Function"
      proof
        assume t: "t = Function"
        with False have "returned_false (cb (Node t v i children))" by simp
        with a have "ntype (Node t v i children) \<noteq> Function" by blast
        with t show False by simp
      qed
      then show ?thesis by (simp add: Let_def)
    qed
  qed
qed

lemma walk_visit_reports:
  "snd (snd (walk (visit_node context_fix margin category propertyName valueOffset) ns))
     = concat (map (\<lambda>n. reports (visit_node context_fix margin category propertyName valueOffset n)) (preorder ns))"
  using walk_reports_aux(1) [of "visit_node context_fix margin category propertyName valueOffset" ns]
  by (auto dest: visit_node_returned_false)

section \<open>Unitless zero\<close>

lemma close_search_kind: "\<forall>d \<in> set (close_search margin category numericPxValue originalValue i j). is_close d"
  by (auto simp: close_search_def Let_def split: option.splits)

lemma visit_node_zero:
  "reports (visit_node context_fix margin category propertyName valueOffset (Node t ''0'' i ns)) =
     (case truthy_token (tokens category) ''0'' of
        None \<Rightarrow> []
      | Some tok \<Rightarrow> if t = Word then [ExactMatch tok ''0'' propertyName (valueOffset + i) (valueOffset + i + 1)] else [])"
  by (simp add: visit_node_def Let_def skipped_def split: option.splits)

text \<open>
  C6. A node whose text is exactly "0": against a category whose tokens have no key "0"
  it is skipped and nothing is reported; against a category whose tokens give "0" a
  token name, the word node is reported as the exact match of that token; and whatever
  is reported for such a node is an exact match, never a close match.
\<close>

theorem unitless_zero_exact_only:
  assumes "nvalue n = ''0''"
  shows "(map_of (tokens category) ''0'' = None \<longrightarrow>
            reports (visit_node context_fix margin category propertyName valueOffset n) = [])
       \<and> (ntype n = Word \<and> map_of (tokens category) ''0'' = Some tok \<and> tok \<noteq> [] \<longrightarrow>
            reports (visit_node context_fix margin category propertyName valueOffset n)
              = [ExactMatch tok ''0'' propertyName (valueOffset + sourceIndex n) (valueOffset + sourceIndex n + 1)])
       \<and> (\<forall>d \<in> set (reports (visit_node context_fix margin category propertyName valueOffset n)). is_exact d \<and> \<not> is_close d)"
proof -
  obtain t v i ns where n: "n = Node t v i ns" by (cases n)
  with assms have v: "v = ''0''" by simp
  show ?thesis unfolding n v
    by (auto simp: visit_node_zero truthy_token_def split: option.splits if_splits)
qed

theorem unitless_zero_exact_only_witness:
  "nvalue (Node Word ''0'' 0 []) = ''0''
   \<and> map_of (tokens \<lparr>properties = [''margin''], tokens = [(''2px'', ''--s-1'')]\<rparr>) ''0'' = None
   \<and> reports (visit_node False (Fin 2) \<lparr>properties = [''margin''], tokens = [(''2px'', ''--s-1'')]\<rparr> ''margin'' 8 (Node Word ''0'' 0 [])) = []
   \<and> map_of (tokens \<lparr>properties = [''margin''], tokens = [(''0'', ''--s-0''), (''2px'', ''--s-1'')]\<rparr>) ''0'' = Some ''--s-0''
   \<and> reports (visit_node False (Fin 2) \<lparr>properties = [''margin''], tokens = [(''0'', ''--s-0''), (''2px'', ''--s-1'')]\<rparr> ''margin'' 8 (Node Word ''0'' 0 []))
        = [ExactMatch ''--s-0'' ''0'' ''margin'' 8 9]"
  using unitless_zero_exact_only [where n = "Node Word ''0'' 0 []" and category = "\<lparr>properties = [''margin''], tokens = [(''2px'', ''--s-1'')]\<rparr>"
      and tok = "''--s-1''" and context_fix = False and margin = "Fin 2" and propertyName = "''margin''" and valueOffset = 8]
    unitless_zero_exact_only [where n = "Node Word ''0'' 0 []" and category = "\<lparr>properties = [''margin''], tokens = [(''0'', ''--s-0''), (''2px'', ''--s-1'')]\<rparr>"
      and tok = "''--s-0''" and context_fix = False and margin = "Fin 2" and propertyName = "''margin''" and valueOffset = 8]
  by simp

section \<open>The close-match candidates\<close>





lemma walk_category_reports:
  "snd (walk_category vp context_fix margin category propertyName d) =
     concat (map (\<lambda>n. reports (visit_node context_fix margin category propertyName
                                  (length (decl_prop d) + between_length d) n))
                 (preorder (valueParser vp (decl_value d))))"
  using walk_visit_reports [of context_fix margin category propertyName
      "length (decl_prop d) + between_length d" "valueParser vp (decl_value d)"]
  by (auto simp: walk_category_def Let_def split: prod.splits)








section \<open>Ranking the close matches\<close>













lemma otherSuggestions_of_tl: "otherSuggestions_of xs = join_comma (map suggestion (tl xs))"
proof (cases xs)
  case Nil
  then show ?thesis by (simp add: otherSuggestions_of_def)
next
  case (Cons x ys)
  then show ?thesis by (cases ys) (simp_all add: otherSuggestions_of_def)
qed

lemma suggestion_nonempty: "suggestion m \<noteq> []"
  by (simp add: suggestion_def)

lemma join_comma_suggestions_empty: "join_comma (map suggestion ys) = [] \<longleftrightarrow> ys = []"
proof (cases ys)
  case Nil
  then show ?thesis by simp
next
  case (Cons y zs)
  then show ?thesis by (cases zs) (simp_all add: suggestion_nonempty)
qed

lemma otherSuggestions_of_empty: "otherSuggestions_of xs = [] \<longleftrightarrow> tl xs = []"
  by (simp add: otherSuggestions_of_tl join_comma_suggestions_empty)






section \<open>Exact matches and fixing\<close>

lemma hasPxUnit_not_zero: "hasPxUnit v \<Longrightarrow> v \<noteq> ''0''"
  by (auto simp: hasPxUnit_def)

lemma visit_node_exact:
  assumes "exact_token category n = Some tok"
  shows "visit_node context_fix margin category propertyName valueOffset n =
           \<lparr>returned_false = True,
            node_after = (if context_fix \<and> nvalue n \<noteq> tok then set_value tok n else n),
            fixed = (context_fix \<and> nvalue n \<noteq> tok),
            reports = [ExactMatch tok (nvalue n) propertyName (valueOffset + sourceIndex n)
                         (valueOffset + sourceIndex n + length (nvalue n))]\<rparr>"
proof -
  from assms have w: "ntype n = Word"
    and pf: "nvalue n = ''0'' \<or> (hasPxUnit (nvalue n) \<and> extractPxValue (nvalue n) \<noteq> None)"
    and tt: "truthy_token (tokens category) (nvalue n) = Some tok"
    by (auto simp: exact_token_def split: if_splits)
  show ?thesis
  proof (cases "nvalue n = ''0''")
    case True
    then show ?thesis using w tt by (simp add: visit_node_def Let_def)
  next
    case False
    then show ?thesis using w pf tt by (auto simp: visit_node_def Let_def)
  qed
qed

lemma visit_node_no_exact:
  assumes "exact_token category n = None"
  shows "fixed (visit_node context_fix margin category propertyName valueOffset n) = False"
    and "node_after (visit_node context_fix margin category propertyName valueOffset n) = n"
    and "\<forall>d \<in> set (reports (visit_node context_fix margin category propertyName valueOffset n)). is_close d"
  using assms close_search_kind
  by (auto simp: exact_token_def visit_node_def Let_def skipped_def hasPxUnit_not_zero
      split: if_splits option.splits)

lemma visit_node_fixed_iff:
  "fixed (visit_node context_fix margin category propertyName valueOffset n) \<longleftrightarrow>
     context_fix \<and> (\<exists>tok. exact_token category n = Some tok \<and> tok \<noteq> nvalue n)"
proof (cases "exact_token category n")
  case None
  then show ?thesis by (simp add: visit_node_no_exact(1))
next
  case (Some tok)
  then show ?thesis by (auto simp: visit_node_exact)
qed

lemma visit_node_not_fixed:
  "\<not> fixed (visit_node context_fix margin category propertyName valueOffset n) \<Longrightarrow>
     node_after (visit_node context_fix margin category propertyName valueOffset n) = n"
proof (cases "exact_token category n")
  case None
  then show ?thesis by (simp add: visit_node_no_exact(2))
next
  case (Some tok)
  assume "\<not> fixed (visit_node context_fix margin category propertyName valueOffset n)"
  then show ?thesis using Some by (auto simp: visit_node_exact)
qed

lemma walk_unchanged_aux:
  "(\<forall>m \<in> set (preorder ns). \<not> fixed (cb m) \<and> node_after (cb m) = m) \<longrightarrow>
     fst (walk cb ns) = ns \<and> \<not> fst (snd (walk cb ns))"
  "(\<forall>m \<in> set (preorder_node n). \<not> fixed (cb m) \<and> node_after (cb m) = m) \<longrightarrow>
     fst (walk_node cb n) = n \<and> \<not> fst (snd (walk_node cb n))"
proof (induction cb ns and cb n rule: walk_walk_node.induct)
  case (1 cb)
  show ?case by simp
next
  case (2 cb n ns)
  show ?case
  proof
    assume a: "\<forall>m \<in> set (preorder (n # ns)). \<not> fixed (cb m) \<and> node_after (cb m) = m"
    obtain n' f rs where wn: "walk_node cb n = (n', f, rs)" by (cases "walk_node cb n") auto
    obtain ns' f' rs' where ws: "walk cb ns = (ns', f', rs')" by (cases "walk cb ns") auto
    have "n' = n \<and> \<not> f" using 2(1) a wn by simp
    moreover have "ns' = ns \<and> \<not> f'" using 2(2) [OF wn [symmetric] refl] a ws by simp
    ultimately show "fst (walk cb (n # ns)) = n # ns \<and> \<not> fst (snd (walk cb (n # ns)))"
      using wn ws by simp
  qed
next
  case (3 cb t v i children)
  show ?case
  proof
    assume a: "\<forall>m \<in> set (preorder_node (Node t v i children)). \<not> fixed (cb m) \<and> node_after (cb m) = m"
    then have self: "\<not> fixed (cb (Node t v i children))" "node_after (cb (Node t v i children)) = Node t v i children"
      by simp_all
    show "fst (walk_node cb (Node t v i children)) = Node t v i children
            \<and> \<not> fst (snd (walk_node cb (Node t v i children)))"
    proof (cases "\<not> returned_false (cb (Node t v i children)) \<and> t = Function")
      case True
      obtain cs f rs where ws: "walk cb children = (cs, f, rs)" by (cases "walk cb children") auto
      have "\<forall>m \<in> set (preorder children). \<not> fixed (cb m) \<and> node_after (cb m) = m"
        using a True by simp
      then have "cs = children \<and> \<not> f" using 3 [OF refl True] ws by simp
      then show ?thesis using True ws self by (simp add: Let_def)
    next
      case False
      then show ?thesis using self by (auto simp: Let_def)
    qed
  qed
qed

lemma walk_visit_unchanged:
  assumes "\<forall>m \<in> set (preorder ns). \<not> fixed (visit_node context_fix margin category propertyName valueOffset m)"
  shows "fst (walk (visit_node context_fix margin category propertyName valueOffset) ns) = ns"
    and "\<not> fst (snd (walk (visit_node context_fix margin category propertyName valueOffset) ns))"
  using walk_unchanged_aux(1) [of ns "visit_node context_fix margin category propertyName valueOffset"]
    assms visit_node_not_fixed by blast+

lemma walk_category_unchanged:
  assumes "\<forall>m \<in> set (preorder (valueParser vp (decl_value d))).
      \<not> fixed (visit_node context_fix margin category propertyName (length (decl_prop d) + between_length d) m)"
  shows "fst (walk_category vp context_fix margin category propertyName d) = d"
  using walk_visit_unchanged(2) [OF assms]
  by (auto simp: walk_category_def Let_def split: prod.splits)

lemma walk_category_check_mode:
  "fst (walk_category vp False margin category propertyName d) = d"
  by (rule walk_category_unchanged) (simp add: visit_node_fixed_iff)

lemma check_categories_check_mode:
  "check_categories vp False margin propertyName cats d =
     (d, concat (map (\<lambda>c. snd (walk_category vp False margin (snd c) propertyName d))
                     (filter (\<lambda>c. propertyName \<in> set (properties (snd c))) cats)))"
proof (induction cats)
  case Nil
  show ?case by simp
next
  case (Cons e cats)
  obtain name category where e: "e = (name, category)" by (cases e)
  show ?case
  proof (cases "propertyName \<in> set (properties category)")
    case True
    obtain d' rs where w: "walk_category vp False margin category propertyName d = (d', rs)"
      by (cases "walk_category vp False margin category propertyName d")
    then have "d' = d" using walk_category_check_mode [of vp margin category propertyName d] by simp
    then show ?thesis using True e w Cons by simp
  next
    case False
    then show ?thesis using e Cons by simp
  qed
qed


text \<open>
  C2. For each applicable category the walk calls the callback on every node of the
  parsed value, in parse order, and what is reported is what the callbacks report one
  after the other: whatever a callback returns, also at an exact match, the walk goes on
  with the next node. Without fixing, a declaration's reports are those of its applicable
  categories in catalog order, each for all the nodes of the value. With fixing, each
  applicable category in turn walks all the nodes of the value as the categories before
  it left it.
\<close>

theorem walk_visits_every_node:
  "snd (walk_category vp context_fix margin category propertyName d) =
     concat (map (\<lambda>n. reports (visit_node context_fix margin category propertyName
                                  (length (decl_prop d) + between_length d) n))
                 (preorder (valueParser vp (decl_value d))))
   \<and> check_decl vp False margin activeCategories d =
       (d, if decl_prop d = [] \<or> decl_value d = [] \<or> \<not> has_source_start d then []
           else concat (map (\<lambda>c. concat (map (\<lambda>n. reports (visit_node False margin (snd c) (toLowerCase (decl_prop d))
                                                     (length (decl_prop d) + between_length d) n))
                                               (preorder (valueParser vp (decl_value d)))))
                            (filter (\<lambda>c. toLowerCase (decl_prop d) \<in> set (properties (snd c))) activeCategories)))
   \<and> snd (check_categories vp context_fix margin propertyName ((categoryName, category) # rest) d) =
       (if propertyName \<in> set (properties category)
        then snd (walk_category vp context_fix margin category propertyName d)
             @ snd (check_categories vp context_fix margin propertyName rest
                      (fst (walk_category vp context_fix margin category propertyName d)))
        else snd (check_categories vp context_fix margin propertyName rest d))"
proof -
  have a: "snd (walk_category vp context_fix margin category propertyName d) =
     concat (map (\<lambda>n. reports (visit_node context_fix margin category propertyName
                                  (length (decl_prop d) + between_length d) n))
                 (preorder (valueParser vp (decl_value d))))"
    by (rule walk_category_reports)
  have b: "check_decl vp False margin activeCategories d =
       (d, if decl_prop d = [] \<or> decl_value d = [] \<or> \<not> has_source_start d then []
           else concat (map (\<lambda>c. concat (map (\<lambda>n. reports (visit_node False margin (snd c) (toLowerCase (decl_prop d))
                                                     (length (decl_prop d) + between_length d) n))
                                               (preorder (valueParser vp (decl_value d)))))
                            (filter (\<lambda>c. toLowerCase (decl_prop d) \<in> set (properties (snd c))) activeCategories)))"
    by (simp add: walk_category_reports check_decl_def check_categories_check_mode)
  have c: "snd (check_categories vp context_fix margin propertyName ((categoryName, category) # rest) d) =
       (if propertyName \<in> set (properties category)
        then snd (walk_category vp context_fix margin category propertyName d)
             @ snd (check_categories vp context_fix margin propertyName rest
                      (fst (walk_category vp context_fix margin category propertyName d)))
        else snd (check_categories vp context_fix margin propertyName rest d))"
    by (simp split: prod.splits)
  show ?thesis using a b c by (rule conjI [OF _ conjI])
qed

theorem walk_visits_every_node_witness:
  "check_decl words_parser False (Fin 2)
      [(''spacing'', \<lparr>properties = [''margin''], tokens = [(''16px'', ''--a''), (''13px'', ''--b'')]\<rparr>)]
      \<lparr>decl_prop = ''margin'', decl_value = ''16px 15px'', raws_between = Some '': '', has_source_start = True\<rparr>
    = (\<lparr>decl_prop = ''margin'', decl_value = ''16px 15px'', raws_between = Some '': '', has_source_start = True\<rparr>,
       [ExactMatch ''--a'' ''16px'' ''margin'' 8 12,
        CloseMatch ''--a'' ''16px'' ''15px'' (suggestion \<lparr>tokenPxValue = ''13px'', tokenName = ''--b'', diff = Fin 2\<rparr>) 13 17])"
proof -
  let ?D = "\<lparr>decl_prop = ''margin'', decl_value = ''16px 15px'', raws_between = Some '': '', has_source_start = True\<rparr>"
  let ?C = "\<lparr>properties = [''margin''], tokens = [(''16px'', ''--a''), (''13px'', ''--b'')]\<rparr>"
  have g: "\<not> (decl_prop ?D = [] \<or> decl_value ?D = [] \<or> \<not> has_source_start ?D)" by simp
  have p: "preorder (valueParser words_parser (decl_value ?D))
            = [Node Word ''16px'' 0 [], Node Space '' '' 4 [], Node Word ''15px'' 5 []]"
    by code_simp
  have f: "filter (\<lambda>c. toLowerCase (decl_prop ?D) \<in> set (properties (snd c))) [(''spacing'', ?C)]
            = [(''spacing'', ?C)]"
    by code_simp
  have r: "concat (map (\<lambda>n. reports (visit_node False (Fin 2) ?C (toLowerCase (decl_prop ?D))
                             (length (decl_prop ?D) + between_length ?D) n))
              [Node Word ''16px'' 0 [], Node Space '' '' 4 [], Node Word ''15px'' 5 []])
           = [ExactMatch ''--a'' ''16px'' ''margin'' 8 12,
              CloseMatch ''--a'' ''16px'' ''15px'' (suggestion \<lparr>tokenPxValue = ''13px'', tokenName = ''--b'', diff = Fin 2\<rparr>) 13 17]"
    by code_simp
  have "check_decl words_parser False (Fin 2) [(''spacing'', ?C)] ?D =
          (?D, concat (map (\<lambda>c. concat (map (\<lambda>n. reports (visit_node False (Fin 2) (snd c) (toLowerCase (decl_prop ?D))
                                                     (length (decl_prop ?D) + between_length ?D) n))
                                               (preorder (valueParser words_parser (decl_value ?D)))))
                            (filter (\<lambda>c. toLowerCase (decl_prop ?D) \<in> set (properties (snd c))) [(''spacing'', ?C)])))"
    using walk_visits_every_node [of words_parser False "Fin 2" ?C "''margin''" ?D "[(''spacing'', ?C)]"] g
    by (simp only: if_False)
  also have "\<dots> = (?D, [ExactMatch ''--a'' ''16px'' ''margin'' 8 12,
              CloseMatch ''--a'' ''16px'' ''15px'' (suggestion \<lparr>tokenPxValue = ''13px'', tokenName = ''--b'', diff = Fin 2\<rparr>) 13 17])"
    unfolding p f using r by (simp only: list.map concat.simps append_Nil2 snd_conv)
  finally show ?thesis .
qed

lemma check_categories_check_mode_append:
  "snd (check_categories vp False margin propertyName (cats1 @ cats2) d) =
     snd (check_categories vp False margin propertyName cats1 d)
     @ snd (check_categories vp False margin propertyName cats2 d)"
  by (simp add: check_categories_check_mode)

text \<open>
  C1, as the code has it. When a node has an exact match in a category, its evaluation
  against that category reports exactly the exact match with that category's token and
  nothing else (no close-match search). The categories are evaluated one after the
  other, each on its own: without fixing, the reports for a catalog are those for its
  first part followed by those for the rest, and the node is reported with the token of
  every applicable category that has an exact match for it.
\<close>

theorem exact_match_per_category:
  "(exact_token category n = Some tok \<longrightarrow>
      reports (visit_node context_fix margin category propertyName valueOffset n) =
        [ExactMatch tok (nvalue n) propertyName (valueOffset + sourceIndex n)
           (valueOffset + sourceIndex n + length (nvalue n))])
   \<and> snd (check_categories vp False margin propertyName (cats1 @ cats2) d) =
       snd (check_categories vp False margin propertyName cats1 d)
       @ snd (check_categories vp False margin propertyName cats2 d)
   \<and> ((name, category) \<in> set cats \<and> propertyName \<in> set (properties category)
        \<and> n \<in> set (preorder (valueParser vp (decl_value d))) \<and> exact_token category n = Some tok \<longrightarrow>
        ExactMatch tok (nvalue n) propertyName (length (decl_prop d) + between_length d + sourceIndex n)
           (length (decl_prop d) + between_length d + sourceIndex n + length (nvalue n))
          \<in> set (snd (check_categories vp False margin propertyName cats d)))"
proof -
  have a: "exact_token category n = Some tok \<longrightarrow>
      reports (visit_node context_fix margin category propertyName valueOffset n) =
        [ExactMatch tok (nvalue n) propertyName (valueOffset + sourceIndex n)
           (valueOffset + sourceIndex n + length (nvalue n))]"
    by (simp add: visit_node_exact)
  have c: "(name, category) \<in> set cats \<and> propertyName \<in> set (properties category)
        \<and> n \<in> set (preorder (valueParser vp (decl_value d))) \<and> exact_token category n = Some tok \<longrightarrow>
        ExactMatch tok (nvalue n) propertyName (length (decl_prop d) + between_length d + sourceIndex n)
           (length (decl_prop d) + between_length d + sourceIndex n + length (nvalue n))
          \<in> set (snd (check_categories vp False margin propertyName cats d))"
  proof
    assume h: "(name, category) \<in> set cats \<and> propertyName \<in> set (properties category)
        \<and> n \<in> set (preorder (valueParser vp (decl_value d))) \<and> exact_token category n = Some tok"
    then have "ExactMatch tok (nvalue n) propertyName (length (decl_prop d) + between_length d + sourceIndex n)
           (length (decl_prop d) + between_length d + sourceIndex n + length (nvalue n))
        \<in> set (snd (walk_category vp False margin category propertyName d))"
      unfolding walk_category_reports by (force simp: visit_node_exact)
    moreover have "(name, category) \<in> set (filter (\<lambda>c. propertyName \<in> set (properties (snd c))) cats)"
      using h by simp
    ultimately show "ExactMatch tok (nvalue n) propertyName (length (decl_prop d) + between_length d + sourceIndex n)
           (length (decl_prop d) + between_length d + sourceIndex n + length (nvalue n))
          \<in> set (snd (check_categories vp False margin propertyName cats d))"
      unfolding check_categories_check_mode by force
  qed
  show ?thesis using a c check_categories_check_mode_append [of vp margin propertyName cats1 cats2 d]
    by blast
qed

text \<open>
  Two categories that both apply to \<^verbatim>\<open>margin\<close> and both have the key "16px": the one node
  of \<^verbatim>\<open>margin: 16px\<close> is reported twice, the second time with the token of the later
  category.
\<close>

theorem exact_match_first_category_only_counterexample:
  "snd (ruleImpl words_parser True (Some \<lparr>tokenMatchMargin = None, tokensFilePath = ''tokens.json''\<rparr>) False
        ''/project/tokens.json''
        (Loaded [(''a'', \<lparr>raw_properties = Some [''margin''], raw_tokens = Some [(''16px'', ''--a'')]\<rparr>),
                 (''b'', \<lparr>raw_properties = Some [''margin''], raw_tokens = Some [(''16px'', ''--b'')]\<rparr>)])
        [\<lparr>decl_prop = ''margin'', decl_value = ''16px'', raws_between = Some '': '', has_source_start = True\<rparr>])
      = [ExactMatch ''--a'' ''16px'' ''margin'' 8 12, ExactMatch ''--b'' ''16px'' ''margin'' 8 12]"
  by code_simp

theorem exact_match_per_category_witness:
  "exact_token \<lparr>properties = [''margin''], tokens = [(''16px'', ''--b'')]\<rparr> (Node Word ''16px'' 0 []) = Some ''--b''
   \<and> reports (visit_node False (Fin 2) \<lparr>properties = [''margin''], tokens = [(''16px'', ''--b'')]\<rparr> ''margin'' 8 (Node Word ''16px'' 0 []))
       = [ExactMatch ''--b'' ''16px'' ''margin'' 8 12]
   \<and> (''b'', \<lparr>properties = [''margin''], tokens = [(''16px'', ''--b'')]\<rparr>)
        \<in> set [(''a'', \<lparr>properties = [''margin''], tokens = [(''16px'', ''--a'')]\<rparr>),
                (''b'', \<lparr>properties = [''margin''], tokens = [(''16px'', ''--b'')]\<rparr>)]
   \<and> ''margin'' \<in> set (properties \<lparr>properties = [''margin''], tokens = [(''16px'', ''--b'')]\<rparr>)
   \<and> Node Word ''16px'' 0 [] \<in> set (preorder (valueParser words_parser (decl_value
        \<lparr>decl_prop = ''margin'', decl_value = ''16px'', raws_between = Some '': '', has_source_start = True\<rparr>)))
   \<and> ExactMatch ''--b'' ''16px'' ''margin'' 8 12
        \<in> set (snd (check_categories words_parser False (Fin 2) ''margin''
             [(''a'', \<lparr>properties = [''margin''], tokens = [(''16px'', ''--a'')]\<rparr>),
              (''b'', \<lparr>properties = [''margin''], tokens = [(''16px'', ''--b'')]\<rparr>)]
             \<lparr>decl_prop = ''margin'', decl_value = ''16px'', raws_between = Some '': '', has_source_start = True\<rparr>))"
proof -
  let ?D = "\<lparr>decl_prop = ''margin'', decl_value = ''16px'', raws_between = Some '': '', has_source_start = True\<rparr>"
  let ?A = "\<lparr>properties = [''margin''], tokens = [(''16px'', ''--a'')]\<rparr>"
  let ?B = "\<lparr>properties = [''margin''], tokens = [(''16px'', ''--b'')]\<rparr>"
  have e: "exact_token ?B (Node Word ''16px'' 0 []) = Some ''--b''" by code_simp
  have m: "(''b'', ?B) \<in> set [(''a'', ?A), (''b'', ?B)]" by simp
  have pr: "''margin'' \<in> set (properties ?B)" by simp
  have n: "Node Word ''16px'' 0 [] \<in> set (preorder (valueParser words_parser (decl_value ?D)))"
    by code_simp
  have off: "length (decl_prop ?D) + between_length ?D = 8" by (simp add: between_length_def)
  note inst = exact_match_per_category [where category = ?B and n = "Node Word ''16px'' 0 []" and tok = "''--b''"
      and context_fix = False and margin = "Fin 2" and propertyName = "''margin''" and valueOffset = 8
      and vp = words_parser and d = ?D and name = "''b''" and cats = "[(''a'', ?A), (''b'', ?B)]"]
  have r: "reports (visit_node False (Fin 2) ?B ''margin'' 8 (Node Word ''16px'' 0 []))
       = [ExactMatch ''--b'' ''16px'' ''margin'' 8 12]"
    using inst e by simp
  have "ExactMatch ''--b'' (nvalue (Node Word ''16px'' 0 [])) ''margin''
           (length (decl_prop ?D) + between_length ?D + sourceIndex (Node Word ''16px'' 0 []))
           (length (decl_prop ?D) + between_length ?D + sourceIndex (Node Word ''16px'' 0 [])
              + length (nvalue (Node Word ''16px'' 0 [])))
        \<in> set (snd (check_categories words_parser False (Fin 2) ''margin'' [(''a'', ?A), (''b'', ?B)] ?D))"
    using inst e m pr n by blast
  then have c: "ExactMatch ''--b'' ''16px'' ''margin'' 8 12
        \<in> set (snd (check_categories words_parser False (Fin 2) ''margin'' [(''a'', ?A), (''b'', ?B)] ?D))"
    unfolding off by simp
  show ?thesis using e r m pr n c by blast
qed





end
